theory Spec2Isabelle
  imports Complex_Main "HOL-Library.Word"
begin

section \<open>Packet decoder (decode_witmotion)\<close>

text \<open>
  The transport hands the decoder a Python \<open>bytearray\<close>: a list of bytes.  Python floats
  are idealised as reals.  For the decoder this loses nothing: an int16 divided by
  \<open>32768.0\<close> (a power of two) and multiplied by \<open>180.0\<close> is exactly representable as a
  double, so the float result is the real one.
\<close>

type_synonym byte = "8 word"
type_synonym angles = "real \<times> real \<times> real"

datatype py_exn = IndexError | StructError | ZeroDivisionError | QueueEmpty | QueueFull

text \<open>\<open>data[i]\<close> for a non-negative index: IndexError out of range.\<close>

definition byte_at :: "byte list \<Rightarrow> nat \<Rightarrow> py_exn + byte" where
  "byte_at data i = (if i < length data then Inr (data ! i) else Inl IndexError)"

text \<open>\<open>data[a:b]\<close> for \<open>0 \<le> a \<le> b\<close>: slicing clamps at the end and never raises.\<close>

definition py_slice :: "byte list \<Rightarrow> nat \<Rightarrow> nat \<Rightarrow> byte list" where
  "py_slice data a b = take (b - a) (drop a data)"

text \<open>
  \<open>struct.unpack('<h', bs)[0]\<close>: a little-endian two's-complement 16-bit integer;
  \<open>struct.error\<close> unless \<open>bs\<close> holds exactly two bytes.
\<close>

definition int16_le :: "byte \<Rightarrow> byte \<Rightarrow> int" where
  "int16_le lo hi =
     (let u = uint lo + 256 * uint hi in if u \<ge> 32768 then u - 65536 else u)"

fun unpack_h :: "byte list \<Rightarrow> py_exn + int" where
  "unpack_h [lo, hi] = Inr (int16_le lo hi)"
| "unpack_h _ = Inl StructError"

text \<open>\<open>raw / 32768.0 * 180.0\<close>\<close>

definition to_degrees :: "int \<Rightarrow> real" where
  "to_degrees raw = real_of_int raw / 32768 * 180"

text \<open>The three assignments and the \<open>return r, p, y\<close> inside the header test.\<close>

definition parse_frame :: "byte list \<Rightarrow> nat \<Rightarrow> py_exn + angles" where
  "parse_frame data i =
     (case unpack_h (py_slice data (i + 2) (i + 4)) of Inl e \<Rightarrow> Inl e | Inr r \<Rightarrow>
      case unpack_h (py_slice data (i + 4) (i + 6)) of Inl e \<Rightarrow> Inl e | Inr p \<Rightarrow>
      case unpack_h (py_slice data (i + 6) (i + 8)) of Inl e \<Rightarrow> Inl e | Inr y \<Rightarrow>
        Inr (to_degrees r, to_degrees p, to_degrees y))"

text \<open>
  The \<open>for i in range(...)\<close> loop over the remaining indices.  \<open>and\<close> short-circuits:
  \<open>data[i+1]\<close> is read only when \<open>data[i] == 0x55\<close>.
\<close>

fun scan :: "byte list \<Rightarrow> nat list \<Rightarrow> py_exn + angles option" where
  "scan data [] = Inr None"
| "scan data (i # rest) =
     (case byte_at data i of Inl e \<Rightarrow> Inl e | Inr b0 \<Rightarrow>
        if b0 = 0x55 then
          (case byte_at data (i + 1) of Inl e \<Rightarrow> Inl e | Inr b1 \<Rightarrow>
             if b1 = 0x61 then
               (case parse_frame data i of Inl e \<Rightarrow> Inl e | Inr a \<Rightarrow> Inr (Some a))
             else scan data rest)
        else scan data rest)"

text \<open>\<open>range(len(data) - 7)\<close>: empty when the length is below 8.\<close>

definition scan_range :: "byte list \<Rightarrow> nat list" where
  "scan_range data = [0 ..< nat (int (length data) - 7)]"

text \<open>The body of the \<open>try\<close> block; \<open>Inl\<close> is an exception that reaches the \<open>except\<close>.\<close>

definition decode_body :: "byte list \<Rightarrow> py_exn + angles option" where
  "decode_body data = scan data (scan_range data)"

text \<open>\<open>except Exception: pass\<close> followed by \<open>return None\<close>.\<close>

definition decode_witmotion :: "byte list \<Rightarrow> angles option" where
  "decode_witmotion data = (case decode_body data of Inl e \<Rightarrow> None | Inr r \<Rightarrow> r)"

text \<open>
  The older decoder of ai\_studio\_code\_version1.py: no scan and no \<open>try\<close>; it looks at
  offset 0 only and wants at least 11 bytes.  Its caller does the scanning.
\<close>

definition decode_witmotion_v1 :: "byte list \<Rightarrow> py_exn + angles option" where
  "decode_witmotion_v1 data =
     (if 11 \<le> length data then
        (case byte_at data 0 of Inl e \<Rightarrow> Inl e | Inr b0 \<Rightarrow>
           if b0 = 0x55 then
             (case byte_at data 1 of Inl e \<Rightarrow> Inl e | Inr b1 \<Rightarrow>
                if b1 = 0x61 then
                  (case parse_frame data 0 of Inl e \<Rightarrow> Inl e | Inr a \<Rightarrow> Inr (Some a))
                else Inr None)
           else Inr None)
      else Inr None)"

text \<open>Vocabulary for the statements: a complete frame starts at \<open>i\<close>.\<close>

definition frame_at :: "byte list \<Rightarrow> nat \<Rightarrow> bool" where
  "frame_at data i \<longleftrightarrow> i + 8 \<le> length data \<and> data ! i = 0x55 \<and> data ! (i + 1) = 0x61"

definition header_at :: "byte list \<Rightarrow> nat \<Rightarrow> bool" where
  "header_at data i \<longleftrightarrow> data ! i = 0x55 \<and> data ! (i + 1) = 0x61"

definition frame_angles :: "byte list \<Rightarrow> nat \<Rightarrow> angles" where
  "frame_angles data i =
     (to_degrees (int16_le (data ! (i + 2)) (data ! (i + 3))),
      to_degrees (int16_le (data ! (i + 4)) (data ! (i + 5))),
      to_degrees (int16_le (data ! (i + 6)) (data ! (i + 7))))"


section \<open>Shared orientation state with exponential filter (arena.py)\<close>

text \<open>
  \<open>class SensorData\<close> of arena.py.  The lock only serialises the methods, so each method
  is one atomic state transformer.  Floats are idealised as reals.
\<close>

record sensor_data =
  raw_roll :: real
  raw_pitch :: real
  raw_yaw :: real
  roll :: real
  pitch :: real
  yaw :: real
  offset_r :: real
  offset_p :: real
  offset_y :: real
  new_data :: bool

definition SMOOTHING_ALPHA :: real where
  "SMOOTHING_ALPHA = 0.3"

text \<open>\<open>SensorData.__init__\<close>\<close>

definition sensor_data_init :: sensor_data where
  "sensor_data_init =
     \<lparr>raw_roll = 0, raw_pitch = 0, raw_yaw = 0, roll = 0, pitch = 0, yaw = 0,
      offset_r = 0, offset_p = 0, offset_y = 0, new_data = False\<rparr>"

text \<open>\<open>SensorData.update\<close>: the producer stores the latest raw reading.\<close>

definition update :: "sensor_data \<Rightarrow> real \<Rightarrow> real \<Rightarrow> real \<Rightarrow> sensor_data" where
  "update s r p y = s\<lparr>raw_roll := r, raw_pitch := p, raw_yaw := y, new_data := True\<rparr>"

text \<open>
  \<open>SensorData.get_smoothed_angles\<close>: one filter step per axis, then the offset is
  subtracted and \<open>new_data\<close> is cleared.  Returns \<open>(r, p, y)\<close> and the new state.
\<close>

definition get_smoothed_angles :: "sensor_data \<Rightarrow> angles \<times> sensor_data" where
  "get_smoothed_angles s =
     (let s1 = s\<lparr>roll := roll s * (1 - SMOOTHING_ALPHA) + raw_roll s * SMOOTHING_ALPHA\<rparr>;
          s2 = s1\<lparr>pitch := pitch s1 * (1 - SMOOTHING_ALPHA) + raw_pitch s1 * SMOOTHING_ALPHA\<rparr>;
          s3 = s2\<lparr>yaw := yaw s2 * (1 - SMOOTHING_ALPHA) + raw_yaw s2 * SMOOTHING_ALPHA\<rparr>;
          r = roll s3 - offset_r s3;
          p = pitch s3 - offset_p s3;
          y = yaw s3 - offset_y s3
      in ((r, p, y), s3\<lparr>new_data := False\<rparr>))"

text \<open>\<open>SensorData.calibrate\<close> (the two \<open>print\<close> calls leave the state alone).\<close>

definition calibrate :: "sensor_data \<Rightarrow> sensor_data" where
  "calibrate s =
     s\<lparr>offset_r := raw_roll s, offset_p := raw_pitch s, offset_y := raw_yaw s,
       roll := raw_roll s, pitch := raw_pitch s, yaw := raw_yaw s\<rparr>"

text \<open>
  The notification callback inside \<open>run_bluetooth\<close>: a decoded reading is stored, anything
  else is dropped.  A 3-tuple is truthy, so \<open>if angles:\<close> tests for \<open>None\<close> only.
\<close>

definition callback :: "sensor_data \<Rightarrow> byte list \<Rightarrow> sensor_data" where
  "callback s data =
     (case decode_witmotion data of None \<Rightarrow> s | Some (r, p, y) \<Rightarrow> update s r p y)"

text \<open>
  The timer tick \<open>update_view\<close>, as far as \<open>shared_data\<close> is concerned: the angles are
  fetched only when \<open>new_data\<close> is set.  \<open>Some\<close> carries what \<open>get_smoothed_angles\<close>
  returned (the value that is then sign-adjusted and rendered); \<open>None\<close> is a tick that
  does nothing.
\<close>

definition update_view :: "sensor_data \<Rightarrow> angles option \<times> sensor_data" where
  "update_view s =
     (if new_data s then (let (a, s') = get_smoothed_angles s in (Some a, s'))
      else (None, s))"

text \<open>The producer/consumer pair \<open>update(r, p, y)\<close>; \<open>update_view\<close>, repeated \<open>n\<close> times.\<close>

fun repeat_update_view :: "real \<Rightarrow> real \<Rightarrow> real \<Rightarrow> nat \<Rightarrow> sensor_data \<Rightarrow> sensor_data" where
  "repeat_update_view r p y 0 s = s"
| "repeat_update_view r p y (Suc n) s =
     snd (update_view (update (repeat_update_view r p y n s) r p y))"

text \<open>The roll angle handed out by the \<open>n\<close>-th such tick (counting from 0).\<close>

definition sampled_roll :: "real \<Rightarrow> real \<Rightarrow> real \<Rightarrow> nat \<Rightarrow> sensor_data \<Rightarrow> real option" where
  "sampled_roll r p y n s =
     map_option fst (fst (update_view (update (repeat_update_view r p y n s) r p y)))"

section \<open>Shared state without filter (witmotion\_vtk\_fixed.py)\<close>

record fixed_sensor_data =
  fx_roll :: real
  fx_pitch :: real
  fx_yaw :: real
  fx_offset_r :: real
  fx_offset_p :: real
  fx_offset_y :: real
  fx_new_data :: bool

text \<open>\<open>SensorData.calibrate\<close> of witmotion\_vtk\_fixed.py: a simultaneous tuple assignment.\<close>

definition calibrate_fixed :: "fixed_sensor_data \<Rightarrow> fixed_sensor_data" where
  "calibrate_fixed s =
     s\<lparr>fx_offset_r := fx_roll s, fx_offset_p := fx_pitch s, fx_offset_y := fx_yaw s\<rparr>"

section \<open>Bounded queue variant (arena\_alter\_clinkz.py)\<close>

text \<open>
  \<open>queue.Queue(maxsize)\<close> as the list of its items, oldest first.  \<open>full()\<close> is
  \<open>0 < maxsize <= qsize()\<close>; \<open>put_nowait\<close> raises \<open>Full\<close> and \<open>get_nowait\<close> raises
  \<open>Empty\<close> instead of waiting.
\<close>

definition queue_full :: "nat \<Rightarrow> 'a list \<Rightarrow> bool" where
  "queue_full maxsize q \<longleftrightarrow> 0 < maxsize \<and> maxsize \<le> length q"

definition put_nowait :: "nat \<Rightarrow> 'a list \<Rightarrow> 'a \<Rightarrow> py_exn + 'a list" where
  "put_nowait maxsize q x = (if queue_full maxsize q then Inl QueueFull else Inr (q @ [x]))"

definition get_nowait :: "'a list \<Rightarrow> py_exn + ('a \<times> 'a list)" where
  "get_nowait q = (case q of [] \<Rightarrow> Inl QueueEmpty | x # rest \<Rightarrow> Inr (x, rest))"

text \<open>\<open>class IMUManager\<close>; \<open>data_queue = Queue(maxsize=3)\<close>.\<close>

record imu_manager =
  data_queue :: "angles list"
  offsets :: angles

definition data_queue_maxsize :: nat where
  "data_queue_maxsize = 3"

definition imu_manager_init :: imu_manager where
  "imu_manager_init = \<lparr>data_queue = [], offsets = (0, 0, 0)\<rparr>"

definition set_offsets :: "imu_manager \<Rightarrow> real \<Rightarrow> real \<Rightarrow> real \<Rightarrow> imu_manager" where
  "set_offsets m r p y = m\<lparr>offsets := (r, p, y)\<rparr>"

text \<open>
  The queue steps of the notification callback, for a decoded reading:
  \<open>if full(): get_nowait()\<close> and then \<open>put_nowait(angles)\<close>.  Neither call is guarded by a
  \<open>try\<close>, so their exceptions would leave the callback.
\<close>

definition enqueue_drop_oldest :: "angles list \<Rightarrow> angles \<Rightarrow> py_exn + angles list" where
  "enqueue_drop_oldest q a =
     (if queue_full data_queue_maxsize q then
        (case get_nowait q of Inl e \<Rightarrow> Inl e
         | Inr (_, q') \<Rightarrow> put_nowait data_queue_maxsize q' a)
      else put_nowait data_queue_maxsize q a)"

definition callback_queue :: "imu_manager \<Rightarrow> byte list \<Rightarrow> py_exn + imu_manager" where
  "callback_queue m data =
     (case decode_witmotion data of None \<Rightarrow> Inr m
      | Some a \<Rightarrow>
          (case enqueue_drop_oldest (data_queue m) a of Inl e \<Rightarrow> Inl e
           | Inr q \<Rightarrow> Inr (m\<lparr>data_queue := q\<rparr>)))"

text \<open>
  The timer tick of this variant takes one reading off the queue (\<open>except Empty: pass\<close>);
  the calibrated angles it renders are returned beside the state.
\<close>

definition update_view_queue :: "imu_manager \<Rightarrow> angles option \<times> imu_manager" where
  "update_view_queue m =
     (case get_nowait (data_queue m) of Inl e \<Rightarrow> (None, m)
      | Inr ((r, p, y), q) \<Rightarrow>
          (case offsets m of (off_r, off_p, off_y) \<Rightarrow>
             (Some (r - off_r, p - off_p, y - off_y), m\<lparr>data_queue := q\<rparr>)))"

text \<open>\<open>key_press\<close>: \<open>c\<close> calibrates on the oldest queued reading, \<open>r\<close> resets the offsets.\<close>

definition key_press_queue :: "imu_manager \<Rightarrow> string \<Rightarrow> imu_manager" where
  "key_press_queue m key =
     (if key = ''c'' then
        (case get_nowait (data_queue m) of Inl e \<Rightarrow> m
         | Inr ((r, p, y), q) \<Rightarrow> set_offsets (m\<lparr>data_queue := q\<rparr>) r p y)
      else if key = ''r'' then set_offsets m 0 0 0
      else m)"

text \<open>
  What can happen to the manager: a notification, a timer tick, a key press, each taken as
  one atomic step, in any order.
\<close>

datatype event = Notify "byte list" | Tick | Key string

fun step :: "imu_manager \<Rightarrow> event \<Rightarrow> py_exn + imu_manager" where
  "step m (Notify data) = callback_queue m data"
| "step m Tick = Inr (snd (update_view_queue m))"
| "step m (Key k) = Inr (key_press_queue m k)"

fun run :: "imu_manager \<Rightarrow> event list \<Rightarrow> py_exn + imu_manager" where
  "run m [] = Inr m"
| "run m (e # es) = (case step m e of Inl x \<Rightarrow> Inl x | Inr m' \<Rightarrow> run m' es)"

section \<open>Moving-average variant (Qwen\_python\_20260212\_ot0jub0wu.py)\<close>

text \<open>
  \<open>collections.deque(maxlen=n)\<close> as a list, leftmost first: \<open>append\<close> adds on the right and
  then drops the leftmost element when the length exceeds \<open>maxlen\<close>.
\<close>

definition deque_append :: "nat \<Rightarrow> 'a list \<Rightarrow> 'a \<Rightarrow> 'a list" where
  "deque_append maxlen d x = (let d' = d @ [x] in if length d' > maxlen then tl d' else d')"

text \<open>\<open>sum(buf) / len(buf)\<close>: ZeroDivisionError on an empty buffer.\<close>

definition buffer_mean :: "real list \<Rightarrow> py_exn + real" where
  "buffer_mean buf =
     (if length buf = 0 then Inl ZeroDivisionError else Inr (sum_list buf / real (length buf)))"

record ma_sensor_data =
  ma_roll :: real
  ma_pitch :: real
  ma_yaw :: real
  ma_offset_r :: real
  ma_offset_p :: real
  ma_offset_y :: real
  ma_new_data :: bool
  smoothing_window :: nat
  roll_buffer :: "real list"
  pitch_buffer :: "real list"
  yaw_buffer :: "real list"

text \<open>\<open>SensorData.__init__(smoothing_window)\<close>: the buffers start as \<open>[0.0] * smoothing_window\<close>.\<close>

definition ma_sensor_data_init :: "nat \<Rightarrow> ma_sensor_data" where
  "ma_sensor_data_init w =
     \<lparr>ma_roll = 0, ma_pitch = 0, ma_yaw = 0,
      ma_offset_r = 0, ma_offset_p = 0, ma_offset_y = 0, ma_new_data = False,
      smoothing_window = w,
      roll_buffer = replicate w 0, pitch_buffer = replicate w 0, yaw_buffer = replicate w 0\<rparr>"

text \<open>\<open>shared_data = SensorData(smoothing_window=5)\<close>\<close>

definition shared_data_ma :: ma_sensor_data where
  "shared_data_ma = ma_sensor_data_init 5"

text \<open>\<open>SensorData.add_raw_angles\<close>\<close>

definition add_raw_angles ::
    "ma_sensor_data \<Rightarrow> real \<Rightarrow> real \<Rightarrow> real \<Rightarrow> py_exn + ma_sensor_data" where
  "add_raw_angles s r p y =
     (let s1 = s\<lparr>roll_buffer := deque_append (smoothing_window s) (roll_buffer s) r,
                 pitch_buffer := deque_append (smoothing_window s) (pitch_buffer s) p,
                 yaw_buffer := deque_append (smoothing_window s) (yaw_buffer s) y\<rparr>
      in case buffer_mean (roll_buffer s1) of Inl e \<Rightarrow> Inl e | Inr mr \<Rightarrow>
         case buffer_mean (pitch_buffer s1) of Inl e \<Rightarrow> Inl e | Inr mp \<Rightarrow>
         case buffer_mean (yaw_buffer s1) of Inl e \<Rightarrow> Inl e | Inr my \<Rightarrow>
           Inr (s1\<lparr>ma_roll := mr, ma_pitch := mp, ma_yaw := my, ma_new_data := True\<rparr>))"

text \<open>A sequence of readings, added one after the other.\<close>

fun add_all :: "ma_sensor_data \<Rightarrow> angles list \<Rightarrow> py_exn + ma_sensor_data" where
  "add_all s [] = Inr s"
| "add_all s ((r, p, y) # rest) =
     (case add_raw_angles s r p y of Inl e \<Rightarrow> Inl e | Inr s' \<Rightarrow> add_all s' rest)"

text \<open>What holds of the moving-average state after construction and after every reading.\<close>

definition ma_inv :: "ma_sensor_data \<Rightarrow> bool" where
  "ma_inv s \<longleftrightarrow> smoothing_window s = 5 \<and> length (roll_buffer s) = 5
     \<and> length (pitch_buffer s) = 5 \<and> length (yaw_buffer s) = 5
     \<and> ma_roll s = sum_list (roll_buffer s) / 5
     \<and> ma_pitch s = sum_list (pitch_buffer s) / 5
     \<and> ma_yaw s = sum_list (yaw_buffer s) / 5"

section \<open>The decoder finds the first complete frame\<close>

lemma py_slice_pair:
  assumes "b = a + 2" and "c = a + 1" and "b \<le> length data"
  shows "py_slice data a b = [data ! a, data ! c]"
proof -
  have "take 2 (drop a data) = [drop a data ! 0, drop a data ! 1]"
    using assms by (intro nth_equalityI) (auto simp: less_Suc_eq numeral_2_eq_2)
  then show ?thesis using assms by (simp add: py_slice_def)
qed

lemma parse_frame_complete:
  assumes "i + 8 \<le> length data"
  shows "parse_frame data i = Inr (frame_angles data i)"
proof -
  have a: "py_slice data (i + 2) (i + 4) = [data ! (i + 2), data ! (i + 3)]"
    by (rule py_slice_pair) (use assms in simp_all)
  have b: "py_slice data (i + 4) (i + 6) = [data ! (i + 4), data ! (i + 5)]"
    by (rule py_slice_pair) (use assms in simp_all)
  have c: "py_slice data (i + 6) (i + 8) = [data ! (i + 6), data ! (i + 7)]"
    by (rule py_slice_pair) (use assms in simp_all)
  show ?thesis unfolding parse_frame_def frame_angles_def a b c by simp
qed

lemma scan_find:
  assumes "\<forall>i \<in> set idxs. i + 8 \<le> length data"
  shows "scan data idxs = Inr (map_option (frame_angles data) (find (header_at data) idxs))"
  using assms
proof (induction idxs)
  case Nil
  show ?case by simp
next
  case (Cons i rest)
  then have len: "i + 8 \<le> length data" by simp
  from Cons have ih: "scan data rest = Inr (map_option (frame_angles data) (find (header_at data) rest))"
    by simp
  show ?case
  proof (cases "header_at data i")
    case True
    then have "data ! i = 0x55" and "data ! (i + 1) = 0x61" by (simp_all add: header_at_def)
    then show ?thesis using len True by (simp add: byte_at_def parse_frame_complete)
  next
    case False
    then have "data ! i \<noteq> 0x55 \<or> data ! (i + 1) \<noteq> 0x61" by (simp add: header_at_def)
    then show ?thesis using len False ih by (auto simp: byte_at_def)
  qed
qed

lemma scan_range_bound: "i \<in> set (scan_range data) \<longleftrightarrow> i + 8 \<le> length data"
  by (auto simp: scan_range_def)

lemma decode_body_find:
  "decode_body data = Inr (map_option (frame_angles data) (find (header_at data) (scan_range data)))"
  unfolding decode_body_def by (rule scan_find) (simp add: scan_range_bound)

lemma decode_find:
  "decode_witmotion data = map_option (frame_angles data) (find (header_at data) (scan_range data))"
  by (simp add: decode_witmotion_def decode_body_find)

lemma decode_known_vector:
  "decode_witmotion [0x55, 0x61, 0x00, 0x40, 0x00, 0x00, 0x00, 0xC0] = Some (90, 0, - 90)"
  by (simp add: decode_find scan_range_def header_at_def frame_angles_def int16_le_def
      to_degrees_def)

lemma decode_witmotion_v1_eq:
  "decode_witmotion_v1 data =
     Inr (if 11 \<le> length data \<and> header_at data 0 then Some (frame_angles data 0) else None)"
proof (cases "11 \<le> length data")
  case True
  then have pf: "parse_frame data 0 = Inr (frame_angles data 0)"
    by (intro parse_frame_complete) simp
  from True have "0 < length data" and "1 < length data" by linarith+
  then have b: "byte_at data 0 = Inr (data ! 0)" "byte_at data 1 = Inr (data ! 1)"
    unfolding byte_at_def by (simp_all only: if_True)
  show ?thesis
  proof (cases "header_at data 0")
    case h: True
    then have "data ! 0 = 0x55" and "data ! 1 = 0x61" by (simp_all add: header_at_def)
    then show ?thesis using True h by (simp add: decode_witmotion_v1_def b pf del: One_nat_def)
  next
    case h: False
    then have "data ! 0 \<noteq> 0x55 \<or> data ! 1 \<noteq> 0x61" by (simp add: header_at_def)
    then show ?thesis using True h by (auto simp: decode_witmotion_v1_def b simp del: One_nat_def)
  qed
next
  case False
  then show ?thesis by (simp add: decode_witmotion_v1_def)
qed

lemma decode_witmotion_v1_short:
  "decode_witmotion_v1 [0x55, 0x61, 0x00, 0x40, 0x00, 0x00, 0x00, 0xC0] = Inr None"
  by (simp add: decode_witmotion_v1_eq)

lemma find_scan_range_first:
  assumes "frame_at data i" and "\<forall>j<i. \<not> frame_at data j"
  shows "find (header_at data) (scan_range data) = Some i"
proof -
  let ?n = "nat (int (length data) - 7)"
  have i: "i < ?n" using assms(1) by (auto simp: frame_at_def)
  have "\<forall>j<i. \<not> header_at data j"
    using assms(2) i by (auto simp: frame_at_def header_at_def)
  moreover have "header_at data i" using assms(1) by (simp add: frame_at_def header_at_def)
  ultimately show ?thesis using i
    unfolding scan_range_def find_Some_iff by (intro exI [of _ i]) auto
qed

lemma find_scan_range_none:
  "find (header_at data) (scan_range data) = None \<longleftrightarrow> (\<forall>i. \<not> frame_at data i)"
  by (auto simp: find_None_iff scan_range_bound frame_at_def header_at_def)


lemma uint_byte_bounds: "0 \<le> uint (b :: byte) \<and> uint b < 256"
  using uint_bounded [of b] by simp

lemma wrap16:
  fixes u :: int
  assumes "0 \<le> u" and "u < 65536"
  shows "(u + 32768) mod 65536 - 32768 = (if u \<ge> 32768 then u - 65536 else u)"
proof (cases "u \<ge> 32768")
  case True
  have e: "u + 32768 = u - 32768 + 65536" by arith
  have "(u + 32768) mod 65536 = (u - 32768 + 65536) mod 65536" by (simp only: e)
  also have "\<dots> = (u - 32768) mod 65536" by (rule mod_add_self2)
  also have "\<dots> = u - 32768" using True assms by (intro mod_pos_pos_trivial) simp_all
  finally show ?thesis using True by simp
next
  case False
  then have "(u + 32768) mod 65536 = u + 32768"
    using assms by (intro mod_pos_pos_trivial) simp_all
  then show ?thesis using False by simp
qed

lemma int16_le_sint: "int16_le lo hi = sint (word_cat hi lo :: 16 word)"
proof -
  let ?u = "uint lo + 256 * uint hi"
  have b: "0 \<le> uint lo" "uint lo < 256" "0 \<le> uint hi" "uint hi < 256"
    using uint_byte_bounds [of lo] uint_byte_bounds [of hi] by simp_all
  then have u: "0 \<le> ?u" "?u < 65536" by linarith+
  have "concat_bit 8 (uint lo) (uint hi) = ?u"
    using b by (simp add: concat_bit_eq take_bit_int_eq_self push_bit_eq_mult)
  moreover have "uint (word_cat hi lo :: 16 word) =
      take_bit 16 (concat_bit 8 (uint lo) (uint hi))"
    unfolding word_cat_eq' uint_word_of_int_eq by simp
  ultimately have cat: "uint (word_cat hi lo :: 16 word) = ?u"
    using u by (simp add: take_bit_int_eq_self)
  have "sint (word_cat hi lo :: 16 word) = (?u + 32768) mod 65536 - 32768"
    by (simp add: sint_uint cat signed_take_bit_eq_take_bit_shift take_bit_eq_mod)
  also have "\<dots> = (if ?u \<ge> 32768 then ?u - 65536 else ?u)"
    using u wrap16 [of ?u] by blast
  finally show ?thesis by (simp add: int16_le_def Let_def)
qed

lemma int16_le_range: "- 32768 \<le> int16_le lo hi \<and> int16_le lo hi \<le> 32767"
proof -
  have "uint lo < 256" "uint hi < 256" "0 \<le> uint lo" "0 \<le> uint hi"
    using uint_bounded [of lo] uint_bounded [of hi] by simp_all
  then have "0 \<le> uint lo + 256 * uint hi" "uint lo + 256 * uint hi < 65536" by linarith+
  moreover have "- 32768 \<le> (if u \<ge> 32768 then u - 65536 else u) \<and>
      (if u \<ge> 32768 then u - 65536 else u) \<le> 32767" if "0 \<le> u" "u < 65536" for u :: int
    using that by auto
  ultimately show ?thesis unfolding int16_le_def Let_def by blast
qed

text \<open>
  Claim C1.  An 8-byte buffer that starts with the header \<open>0x55 0x61\<close> decodes to the three
  payload byte pairs, each read as a little-endian signed 16-bit integer and scaled by
  \<open>/ 32768 * 180\<close>; the known vector gives \<open>(90, 0, -90)\<close>.
\<close>

theorem decode_single_frame:
  "decode_witmotion [0x55, 0x61, r_lo, r_hi, p_lo, p_hi, y_lo, y_hi] =
     Some (real_of_int (sint (word_cat r_hi r_lo :: 16 word)) / 32768 * 180,
           real_of_int (sint (word_cat p_hi p_lo :: 16 word)) / 32768 * 180,
           real_of_int (sint (word_cat y_hi y_lo :: 16 word)) / 32768 * 180)
   \<and> decode_witmotion [0x55, 0x61, 0x00, 0x40, 0x00, 0x00, 0x00, 0xC0] = Some (90, 0, - 90)"
proof -
  have gen: "decode_witmotion [0x55, 0x61, a, b, c, d, e, f] =
      Some (to_degrees (int16_le a b), to_degrees (int16_le c d), to_degrees (int16_le e f))"
    for a b c d e f :: byte
    by (simp add: decode_find scan_range_def header_at_def frame_angles_def)
  have v: "int16_le 0x00 0x40 = 16384" "int16_le 0x00 0x00 = 0" "int16_le 0x00 0xC0 = - 16384"
    by (simp_all add: int16_le_def)
  show ?thesis
    by (simp add: gen v) (simp add: int16_le_sint to_degrees_def)
qed

text \<open>
  Claim C2.  The decoder returns the frame at the first position that holds a complete
  frame (header \<open>0x55 0x61\<close> with \<open>i + 8 \<le> len\<close>).  Hence garbage in front of a frame
  that holds no header byte does not change the result, whatever follows the frame, and
  a second frame later in the buffer is never the one decoded.
\<close>

theorem decode_first_frame:
  "(frame_at data i \<and> (\<forall>j<i. \<not> frame_at data j) \<longrightarrow>
      decode_witmotion data = Some (frame_angles data i))
   \<and> (0x55 \<notin> set garbage \<longrightarrow>
        decode_witmotion (garbage @ [0x55, 0x61, a, b, c, d, e, f] @ rest) =
        decode_witmotion [0x55, 0x61, a, b, c, d, e, f])
   \<and> decode_witmotion ([0xAA, 0x00] @ [0x55, 0x61, a, b, c, d, e, f]) =
       decode_witmotion [0x55, 0x61, a, b, c, d, e, f]"
proof -
  have first: "decode_witmotion data = Some (frame_angles data i)"
    if "frame_at data i" "\<forall>j<i. \<not> frame_at data j" for data i
    using that by (simp add: decode_find find_scan_range_first)
  have one: "decode_witmotion [0x55, 0x61, a, b, c, d, e, f] =
      Some (frame_angles [0x55, 0x61, a, b, c, d, e, f] 0)"
    by (rule first) (simp_all add: frame_at_def)
  have pre: "decode_witmotion (g @ [0x55, 0x61, a, b, c, d, e, f] @ r) =
      decode_witmotion [0x55, 0x61, a, b, c, d, e, f]" if g: "0x55 \<notin> set g" for g r
  proof -
    let ?d = "g @ [0x55, 0x61, a, b, c, d, e, f] @ r"
    have at: "frame_at ?d (length g)"
      by (simp add: frame_at_def nth_append)
    have no: "\<forall>j<length g. \<not> frame_at ?d j"
    proof (intro allI impI)
      fix j assume j: "j < length g"
      then have "g ! j \<in> set g" by simp
      with g have "g ! j \<noteq> 0x55" by metis
      then show "\<not> frame_at ?d j" using j by (simp add: frame_at_def nth_append)
    qed
    have "decode_witmotion ?d = Some (frame_angles ?d (length g))"
      using at no by (rule first)
    also have "frame_angles ?d (length g) = frame_angles [0x55, 0x61, a, b, c, d, e, f] 0"
      by (simp add: frame_angles_def nth_append)
    finally show ?thesis by (simp add: one)
  qed
  have "decode_witmotion ([0xAA, 0x00] @ [0x55, 0x61, a, b, c, d, e, f] @ []) =
       decode_witmotion [0x55, 0x61, a, b, c, d, e, f]"
    by (rule pre) simp
  then show ?thesis using first pre by simp
qed


text \<open>
  Two bytes of garbage, the known vector, and a second frame after it: the frame at
  offset 2 is the one decoded.
\<close>

theorem decode_first_frame_witness:
  "decode_witmotion [0xAA, 0x00, 0x55, 0x61, 0x00, 0x40, 0x00, 0x00, 0x00, 0xC0,
                     0x55, 0x61, 0x00, 0x00, 0x00, 0x40, 0x00, 0x00] = Some (90, 0, - 90)"
proof -
  let ?d = "[0xAA, 0x00, 0x55, 0x61, 0x00, 0x40, 0x00, 0x00, 0x00, 0xC0,
             0x55, 0x61, 0x00, 0x00, 0x00, 0x40, 0x00, 0x00] :: byte list"
  have at: "frame_at ?d 2" by (simp add: frame_at_def)
  have no: "\<forall>j<2. \<not> frame_at ?d j"
  proof (intro allI impI)
    fix j :: nat
    assume "j < 2"
    then consider "j = 0" | "j = 1" by linarith
    then show "\<not> frame_at ?d j" by cases (simp_all add: frame_at_def)
  qed
  have first: "frame_at ?d 2 \<and> (\<forall>j<2. \<not> frame_at ?d j) \<longrightarrow>
      decode_witmotion ?d = Some (frame_angles ?d 2)"
    using decode_first_frame [of ?d 2] by (rule conjunct1)
  have "decode_witmotion ?d = Some (frame_angles ?d 2)"
    by (intro mp [OF first] conjI at no)
  moreover have "frame_angles ?d 2 = (90, 0, - 90)"
    by (simp add: frame_angles_def int16_le_def to_degrees_def)
  ultimately show ?thesis by simp
qed

text \<open>
  Claim C3.  A buffer shorter than 8 bytes gives no reading; more generally the decoder
  gives no reading exactly when no position holds a complete frame; and the body of the
  \<open>try\<close> block never raises, so nothing can reach the caller.
\<close>

theorem decode_no_reading:
  "(length data < 8 \<longrightarrow> decode_witmotion data = None)
   \<and> (decode_witmotion data = None \<longleftrightarrow> (\<forall>i. \<not> frame_at data i))
   \<and> (\<exists>r. decode_body data = Inr r)"
proof -
  have none: "decode_witmotion data = None \<longleftrightarrow> (\<forall>i. \<not> frame_at data i)"
    by (simp add: decode_find find_scan_range_none)
  have short: "decode_witmotion data = None" if "length data < 8"
    using that by (simp add: none frame_at_def)
  show ?thesis using none short by (simp add: decode_body_find)
qed

text \<open>
  A header with a truncated payload, and an 11-byte buffer whose only header sits too
  close to the end.
\<close>

theorem decode_no_reading_witness:
  "length [0x55, 0x61, 0x00, 0x40 :: byte] < 8
   \<and> decode_witmotion [0x55, 0x61, 0x00, 0x40] = None
   \<and> (\<forall>i. \<not> frame_at [0x00, 0x55, 0x00, 0x61, 0x00, 0x00, 0x00, 0x00, 0x55, 0x61, 0x00] i)
   \<and> decode_witmotion [0x00, 0x55, 0x00, 0x61, 0x00, 0x00, 0x00, 0x00, 0x55, 0x61, 0x00] = None"
proof -
  let ?d = "[0x00, 0x55, 0x00, 0x61, 0x00, 0x00, 0x00, 0x00, 0x55, 0x61, 0x00] :: byte list"
  have s: "length [0x55, 0x61, 0x00, 0x40 :: byte] < 8" by simp
  have n: "\<not> frame_at ?d i" for i
  proof
    assume f: "frame_at ?d i"
    then have "i < 4" by (simp add: frame_at_def)
    then consider "i = 0" | "i = 1" | "i = 2" | "i = 3" by linarith
    then show False using f by cases (simp_all add: frame_at_def)
  qed
  have short: "length [0x55, 0x61, 0x00, 0x40 :: byte] < 8 \<longrightarrow>
      decode_witmotion [0x55, 0x61, 0x00, 0x40] = None"
    using decode_no_reading [of "[0x55, 0x61, 0x00, 0x40]"] by (rule conjunct1)
  have none: "decode_witmotion ?d = None \<longleftrightarrow> (\<forall>i. \<not> frame_at ?d i)"
    using decode_no_reading [of ?d] by (rule conjunct2 [THEN conjunct1])
  have a: "decode_witmotion [0x55, 0x61, 0x00, 0x40] = None" by (rule mp [OF short s])
  have b: "decode_witmotion ?d = None" unfolding none using n by (rule allI)
  show ?thesis by (intro conjI allI s a b n)
qed

text \<open>
  Claim C7 as stated fails at the most negative int16: the payload bytes \<open>0x00 0x80\<close> are
  \<open>-32768\<close>, which converts to exactly \<open>-180\<close>, outside \<open>(-180, 180]\<close>.
\<close>

theorem to_degrees_range_counterexample:
  "int16_le 0x00 0x80 = - 32768
   \<and> decode_witmotion [0x55, 0x61, 0x00, 0x80, 0x00, 0x00, 0x00, 0x00] = Some (- 180, 0, 0)
   \<and> \<not> (- 180 < to_degrees (int16_le 0x00 0x80) \<and> to_degrees (int16_le 0x00 0x80) \<le> 180)"
proof -
  have v: "int16_le 0x00 0x80 = - 32768" "int16_le 0x00 0x00 = 0"
    by (simp_all add: int16_le_def)
  have "decode_witmotion [0x55, 0x61, 0x00, 0x80, 0x00, 0x00, 0x00, 0x00] =
      Some (to_degrees (int16_le 0x00 0x80), to_degrees (int16_le 0x00 0x00),
            to_degrees (int16_le 0x00 0x00))"
    by (simp add: decode_find scan_range_def header_at_def frame_angles_def)
  then show ?thesis by (simp add: v to_degrees_def)
qed

text \<open>
  Claim C7, amended.  For every int16 raw value the converted angle lies in the half-open
  interval \<open>[-180, 180)\<close>: \<open>-180\<close> is reached (at \<open>-32768\<close> only) and \<open>180\<close> is not.
\<close>

theorem to_degrees_range:
  "- 32768 \<le> raw \<and> raw \<le> 32767 \<longrightarrow>
     - 180 \<le> to_degrees raw \<and> to_degrees raw < 180
     \<and> (to_degrees raw = - 180 \<longleftrightarrow> raw = - 32768)"
proof
  assume r: "- 32768 \<le> raw \<and> raw \<le> 32767"
  then have lo: "- 32768 \<le> real_of_int raw" and hi: "real_of_int raw < 32768" by linarith+
  have eq: "(to_degrees raw = - 180) = (real_of_int raw = - 32768)"
    by (simp add: to_degrees_def)
  have "(real_of_int raw = - 32768) = (raw = - 32768)"
    using of_int_eq_iff [of raw "- 32768", where ?'a = real] by simp
  with eq have "(to_degrees raw = - 180) = (raw = - 32768)" by simp
  moreover have "- 180 \<le> to_degrees raw" using lo by (simp add: to_degrees_def)
  moreover have "to_degrees raw < 180" using hi by (simp add: to_degrees_def)
  ultimately show "- 180 \<le> to_degrees raw \<and> to_degrees raw < 180
     \<and> (to_degrees raw = - 180 \<longleftrightarrow> raw = - 32768)" by simp
qed

theorem to_degrees_range_witness:
  "- 32768 \<le> (- 32768 :: int) \<and> (- 32768 :: int) \<le> 32767
   \<and> - 180 \<le> to_degrees (- 32768) \<and> to_degrees (- 32768) < 180
   \<and> to_degrees (- 32768) = - 180"
  using to_degrees_range [of "- 32768"] by simp

section \<open>The exponential filter and calibration\<close>

lemma update_view_idle: "\<not> new_data s \<Longrightarrow> update_view s = (None, s)"
  by (simp add: update_view_def)

lemma new_data_update_view: "\<not> new_data (snd (update_view s))"
  by (simp add: update_view_def get_smoothed_angles_def Let_def)

text \<open>
  Claim C4.  After one timer tick a second tick with no reading in between returns
  nothing new and leaves the whole state (filter value, offset, raw values, flag) as it
  is; in general a tick with the unread-data flag cleared is a no-op.
\<close>

theorem update_view_twice:
  "update_view (snd (update_view s)) = (None, snd (update_view s))
   \<and> update_view (s\<lparr>new_data := False\<rparr>) = (None, s\<lparr>new_data := False\<rparr>)"
  by (simp add: update_view_idle new_data_update_view)

lemma filter_fixed_point: "x * (1 - SMOOTHING_ALPHA) + x * SMOOTHING_ALPHA = x"
  by (simp add: algebra_simps)

text \<open>
  Claim C5.  From any state: store the reading \<open>(10, 20, 30)\<close>, calibrate, store the same
  reading again and take a tick; the tick hands out \<open>(0, 0, 0)\<close>.  Calibration copies the
  raw reading into the offset and into the filter value.  (Exact over the reals; the
  floats of the program agree up to rounding.)
\<close>

theorem calibrate_zeroes_pose:
  "fst (update_view (update (calibrate (update s r p y)) r p y)) = Some (0, 0, 0)
   \<and> fst (update_view (update (calibrate (update s 10 20 30)) 10 20 30)) = Some (0, 0, 0)
   \<and> offset_r (calibrate s) = raw_roll s \<and> offset_p (calibrate s) = raw_pitch s
   \<and> offset_y (calibrate s) = raw_yaw s
   \<and> roll (calibrate s) = raw_roll s \<and> pitch (calibrate s) = raw_pitch s
   \<and> yaw (calibrate s) = raw_yaw s"
proof -
  have z: "fst (update_view (update (calibrate (update s a b c)) a b c)) = Some (0, 0, 0)"
    for a b c
    by (simp add: update_view_def get_smoothed_angles_def update_def calibrate_def Let_def
        filter_fixed_point)
  show ?thesis using z [of r p y] z [of 10 20 30] by (simp add: calibrate_def)
qed

text \<open>
  Claim C8.  Calibrating twice in a row gives the same state as calibrating once, in
  arena.py and in witmotion\_vtk\_fixed.py.
\<close>

theorem calibrate_idempotent:
  "calibrate (calibrate s) = calibrate s
   \<and> calibrate_fixed (calibrate_fixed t) = calibrate_fixed t"
  by (simp add: calibrate_def calibrate_fixed_def)

lemma roll_step:
  "roll (snd (update_view (update s r p y))) =
     roll s * (1 - SMOOTHING_ALPHA) + r * SMOOTHING_ALPHA"
  by (simp add: update_view_def get_smoothed_angles_def update_def Let_def)

lemma offset_r_step: "offset_r (snd (update_view (update s r p y))) = offset_r s"
  by (simp add: update_view_def get_smoothed_angles_def update_def Let_def)

lemma sampled_step:
  "fst (update_view (update s r p y)) =
     Some (roll (snd (update_view (update s r p y))) - offset_r s,
           pitch (snd (update_view (update s r p y))) - offset_p s,
           yaw (snd (update_view (update s r p y))) - offset_y s)"
  by (simp add: update_view_def get_smoothed_angles_def update_def Let_def)

lemma offset_r_repeat: "offset_r (repeat_update_view r p y n s) = offset_r s"
  by (induction n) (simp_all add: offset_r_step)

lemma roll_repeat_Suc:
  "roll (repeat_update_view r p y (Suc n) s) =
     roll (repeat_update_view r p y n s) * (1 - SMOOTHING_ALPHA) + r * SMOOTHING_ALPHA"
  by (simp add: roll_step)

lemma roll_repeat_closed:
  "roll (repeat_update_view r p y n s) = r - (r - roll s) * (1 - SMOOTHING_ALPHA) ^ n"
proof (induction n)
  case 0
  show ?case by simp
next
  case (Suc n)
  show ?case unfolding roll_repeat_Suc Suc.IH by (simp add: algebra_simps)
qed

lemma alpha_range: "0 \<le> 1 - SMOOTHING_ALPHA" "1 - SMOOTHING_ALPHA < 1" "0 < SMOOTHING_ALPHA"
  by (simp_all add: SMOOTHING_ALPHA_def)

lemma sampled_roll_eq:
  "sampled_roll r p y n s = Some (roll (repeat_update_view r p y (Suc n) s) - offset_r s)"
  by (simp add: sampled_roll_def sampled_step offset_r_repeat)

lemma roll_filter_facts:
  assumes lt: "roll s < 100"
  shows "roll (repeat_update_view 100 0 0 (Suc n) s) =
           roll (repeat_update_view 100 0 0 n s) * (1 - 0.3) + 100 * 0.3"
    and "roll (repeat_update_view 100 0 0 n s) \<le> roll (repeat_update_view 100 0 0 (Suc n) s)"
    and "roll (repeat_update_view 100 0 0 n s) < 100"
    and "(\<lambda>n. roll (repeat_update_view 100 0 0 n s)) \<longlonglongrightarrow> 100"
proof -
  let ?f = "\<lambda>n. roll (repeat_update_view 100 0 0 n s)"
  let ?q = "1 - SMOOTHING_ALPHA"
  have closed: "?f n = 100 - (100 - roll s) * ?q ^ n" for n
    by (rule roll_repeat_closed)
  have pos: "0 < (100 - roll s) * ?q ^ n" for n
    using lt by (simp add: SMOOTHING_ALPHA_def)
  show "?f (Suc n) = ?f n * (1 - 0.3) + 100 * 0.3"
    using roll_repeat_Suc [of 100 0 0 n s] by (simp add: SMOOTHING_ALPHA_def)
  have below: "?f n < 100" for n using closed [of n] pos [of n] by simp
  show "?f n < 100" by (rule below)
  have "?f (Suc n) - ?f n = (100 - ?f n) * SMOOTHING_ALPHA"
    unfolding roll_repeat_Suc by (simp add: algebra_simps)
  moreover have "0 \<le> (100 - ?f n) * SMOOTHING_ALPHA"
    using below [of n] alpha_range(3) by (intro mult_nonneg_nonneg) (simp_all add: less_imp_le)
  ultimately show "?f n \<le> ?f (Suc n)" by linarith
  have q: "(\<lambda>n. ?q ^ n) \<longlonglongrightarrow> 0"
    using alpha_range by (intro LIMSEQ_realpow_zero)
  have "(\<lambda>n. (100 - roll s) * ?q ^ n) \<longlonglongrightarrow> (100 - roll s) * 0"
    by (rule tendsto_mult_left [OF q])
  then have "(\<lambda>n. 100 - (100 - roll s) * ?q ^ n) \<longlonglongrightarrow> 100 - (100 - roll s) * 0"
    by (rule tendsto_diff [OF tendsto_const])
  then show "?f \<longlonglongrightarrow> 100" by (simp add: closed)
qed

text \<open>
  Claim C6 as stated fails for the roll that the tick hands out when the calibration
  offset is not zero.  After a reading of \<open>-50\<close> and a calibration the filter value is
  \<open>-50\<close> (below 100) and the offset is \<open>-50\<close>; the fourth tick of the repeated pair
  hands out \<open>113.985\<close>, above 100.
\<close>

theorem filter_converges_counterexample:
  "roll (calibrate (update sensor_data_init (- 50) 0 0)) < 100
   \<and> sampled_roll 100 0 0 3 (calibrate (update sensor_data_init (- 50) 0 0))
       = Some (113985 / 1000)
   \<and> \<not> (113985 / 1000 \<le> (100 :: real))"
proof -
  let ?s = "calibrate (update sensor_data_init (- 50) 0 0)"
  have r: "roll ?s = - 50" and o: "offset_r ?s = - 50"
    by (simp_all add: calibrate_def update_def)
  have "roll (repeat_update_view 100 0 0 (Suc 3) ?s) = 100 - (100 - roll ?s) * (1 - SMOOTHING_ALPHA) ^ Suc 3"
    by (rule roll_repeat_closed)
  also have "\<dots> = 63985 / 1000"
    unfolding r by (simp add: SMOOTHING_ALPHA_def power_divide)
  finally have "sampled_roll 100 0 0 3 ?s = Some (113985 / 1000)"
    unfolding sampled_roll_eq o by simp
  then show ?thesis using r by simp
qed

text \<open>
  Claim C6, amended.  Starting with a filter value below 100 and repeating "store the
  reading \<open>(100, 0, 0)\<close>, take a tick": each tick computes
  \<open>filtered = filtered * (1 - 0.3) + 100 * 0.3\<close>; the roll filter value never decreases,
  stays below 100 and converges to 100.  The roll handed out by each tick is that filter
  value minus the calibration offset, so the sequence handed out never decreases, stays
  below \<open>100 - offset\<close> and converges to \<open>100 - offset\<close>; with offset 0 (as in a state
  that was never calibrated) it stays below 100 and converges to 100.
\<close>

theorem filter_converges:
  "roll s < 100 \<longrightarrow>
     (\<forall>n. roll (repeat_update_view 100 0 0 (Suc n) s) =
            roll (repeat_update_view 100 0 0 n s) * (1 - 0.3) + 100 * 0.3)
   \<and> (\<forall>n. roll (repeat_update_view 100 0 0 n s) \<le> roll (repeat_update_view 100 0 0 (Suc n) s))
   \<and> (\<forall>n. roll (repeat_update_view 100 0 0 n s) < 100)
   \<and> (\<lambda>n. roll (repeat_update_view 100 0 0 n s)) \<longlonglongrightarrow> 100
   \<and> (\<forall>n. sampled_roll 100 0 0 n s =
            Some (roll (repeat_update_view 100 0 0 (Suc n) s) - offset_r s))
   \<and> (\<forall>n. \<exists>v w. sampled_roll 100 0 0 n s = Some v
            \<and> sampled_roll 100 0 0 (Suc n) s = Some w \<and> v \<le> w \<and> w < 100 - offset_r s)
   \<and> (\<lambda>n. the (sampled_roll 100 0 0 n s)) \<longlonglongrightarrow> 100 - offset_r s
   \<and> (offset_r s = 0 \<longrightarrow>
        (\<forall>n. \<exists>v. sampled_roll 100 0 0 n s = Some v \<and> v < 100)
        \<and> (\<lambda>n. the (sampled_roll 100 0 0 n s)) \<longlonglongrightarrow> 100)"
proof
  assume lt: "roll s < 100"
  let ?f = "\<lambda>n. roll (repeat_update_view 100 0 0 n s)"
  let ?g = "\<lambda>n. the (sampled_roll 100 0 0 n s)"
  note facts = roll_filter_facts [OF lt]
  have step: "\<forall>n. ?f (Suc n) = ?f n * (1 - 0.3) + 100 * 0.3" using facts(1) by blast
  have mono: "\<forall>n. ?f n \<le> ?f (Suc n)" using facts(2) by blast
  have below: "\<forall>n. ?f n < 100" using facts(3) by blast
  have lim: "?f \<longlonglongrightarrow> 100" by (rule facts(4))
  have out: "\<forall>n. sampled_roll 100 0 0 n s = Some (?f (Suc n) - offset_r s)"
    by (simp add: sampled_roll_eq)
  have smono: "\<forall>n. \<exists>v w. sampled_roll 100 0 0 n s = Some v
            \<and> sampled_roll 100 0 0 (Suc n) s = Some w \<and> v \<le> w \<and> w < 100 - offset_r s"
  proof
    fix n
    have "?f (Suc n) - offset_r s \<le> ?f (Suc (Suc n)) - offset_r s"
      using facts(2) [of "Suc n"] by simp
    moreover have "?f (Suc (Suc n)) - offset_r s < 100 - offset_r s"
      using facts(3) [of "Suc (Suc n)"] by simp
    ultimately show "\<exists>v w. sampled_roll 100 0 0 n s = Some v
            \<and> sampled_roll 100 0 0 (Suc n) s = Some w \<and> v \<le> w \<and> w < 100 - offset_r s"
      unfolding sampled_roll_eq by blast
  qed
  have g: "?g = (\<lambda>n. ?f (Suc n) - offset_r s)"
    by (simp add: sampled_roll_eq)
  have "(\<lambda>n. ?f (Suc n)) \<longlonglongrightarrow> 100"
    by (rule LIMSEQ_Suc [OF lim])
  then have "(\<lambda>n. ?f (Suc n) - offset_r s) \<longlonglongrightarrow> 100 - offset_r s"
    by (intro tendsto_diff tendsto_const)
  then have slim: "?g \<longlonglongrightarrow> 100 - offset_r s" by (simp only: g)
  have zero: "offset_r s = 0 \<longrightarrow>
        (\<forall>n. \<exists>v. sampled_roll 100 0 0 n s = Some v \<and> v < 100) \<and> ?g \<longlonglongrightarrow> 100"
  proof
    assume z: "offset_r s = 0"
    have "\<forall>n. \<exists>v. sampled_roll 100 0 0 n s = Some v \<and> v < 100"
    proof
      fix n
      have "?f (Suc n) - offset_r s < 100"
        using facts(3) [of "Suc n"] unfolding z by simp
      then show "\<exists>v. sampled_roll 100 0 0 n s = Some v \<and> v < 100"
        unfolding sampled_roll_eq by blast
    qed
    moreover have "?g \<longlonglongrightarrow> 100" using slim by (simp add: z)
    ultimately show "(\<forall>n. \<exists>v. sampled_roll 100 0 0 n s = Some v \<and> v < 100) \<and> ?g \<longlonglongrightarrow> 100"
      by (rule conjI)
  qed
  from step mono below lim out smono slim zero show
    "(\<forall>n. ?f (Suc n) = ?f n * (1 - 0.3) + 100 * 0.3)
   \<and> (\<forall>n. ?f n \<le> ?f (Suc n))
   \<and> (\<forall>n. ?f n < 100)
   \<and> ?f \<longlonglongrightarrow> 100
   \<and> (\<forall>n. sampled_roll 100 0 0 n s = Some (?f (Suc n) - offset_r s))
   \<and> (\<forall>n. \<exists>v w. sampled_roll 100 0 0 n s = Some v
            \<and> sampled_roll 100 0 0 (Suc n) s = Some w \<and> v \<le> w \<and> w < 100 - offset_r s)
   \<and> ?g \<longlonglongrightarrow> 100 - offset_r s
   \<and> (offset_r s = 0 \<longrightarrow>
        (\<forall>n. \<exists>v. sampled_roll 100 0 0 n s = Some v \<and> v < 100) \<and> ?g \<longlonglongrightarrow> 100)"
    by (intro conjI)
qed

text \<open>
  A calibrated state (filter value and offset both \<open>-50\<close>): the ticks hand out 45 first
  and climb towards 150.  The fresh state (offset 0): 30 first, towards 100, never above.
\<close>

theorem filter_converges_witness:
  "roll (calibrate (update sensor_data_init (- 50) 0 0)) < 100
   \<and> offset_r (calibrate (update sensor_data_init (- 50) 0 0)) = - 50
   \<and> sampled_roll 100 0 0 0 (calibrate (update sensor_data_init (- 50) 0 0)) = Some 45
   \<and> (\<lambda>n. the (sampled_roll 100 0 0 n (calibrate (update sensor_data_init (- 50) 0 0))))
        \<longlonglongrightarrow> 150
   \<and> roll sensor_data_init < 100 \<and> offset_r sensor_data_init = 0
   \<and> sampled_roll 100 0 0 0 sensor_data_init = Some 30
   \<and> (\<forall>n. \<exists>v. sampled_roll 100 0 0 n sensor_data_init = Some v \<and> v < 100)
   \<and> (\<lambda>n. the (sampled_roll 100 0 0 n sensor_data_init)) \<longlonglongrightarrow> 100"
proof -
  let ?c = "calibrate (update sensor_data_init (- 50) 0 0)"
  have rc: "roll ?c = - 50" and oc: "offset_r ?c = - 50"
    by (simp_all add: calibrate_def update_def)
  then have ltc: "roll ?c < 100" by simp
  have ri: "roll sensor_data_init = 0" and oi: "offset_r sensor_data_init = 0"
    by (simp_all add: sensor_data_init_def)
  then have lti: "roll sensor_data_init < 100" by simp
  note c = mp [OF filter_converges [of ?c] ltc]
  note i = mp [OF filter_converges [of sensor_data_init] lti]
  have c0: "roll (repeat_update_view 100 0 0 0 ?c) = - 50" using rc by simp
  have i0: "roll (repeat_update_view 100 0 0 0 sensor_data_init) = 0" using ri by simp
  have cstep: "roll (repeat_update_view 100 0 0 (Suc 0) ?c) =
      roll (repeat_update_view 100 0 0 0 ?c) * (1 - 0.3) + 100 * 0.3"
    using c by blast
  have istep: "roll (repeat_update_view 100 0 0 (Suc 0) sensor_data_init) =
      roll (repeat_update_view 100 0 0 0 sensor_data_init) * (1 - 0.3) + 100 * 0.3"
    using i by blast
  have cout: "sampled_roll 100 0 0 0 ?c =
      Some (roll (repeat_update_view 100 0 0 (Suc 0) ?c) - offset_r ?c)"
    using c by blast
  have iout: "sampled_roll 100 0 0 0 sensor_data_init =
      Some (roll (repeat_update_view 100 0 0 (Suc 0) sensor_data_init) - offset_r sensor_data_init)"
    using i by blast
  have c45: "sampled_roll 100 0 0 0 ?c = Some 45"
    unfolding cout cstep c0 oc by simp
  have i30: "sampled_roll 100 0 0 0 sensor_data_init = Some 30"
    unfolding iout istep i0 oi by simp
  have clim: "(\<lambda>n. the (sampled_roll 100 0 0 n ?c)) \<longlonglongrightarrow> 100 - offset_r ?c"
    using c by blast
  then have clim': "(\<lambda>n. the (sampled_roll 100 0 0 n ?c)) \<longlonglongrightarrow> 150"
    unfolding oc by simp
  have iz: "(\<forall>n. \<exists>v. sampled_roll 100 0 0 n sensor_data_init = Some v \<and> v < 100)
      \<and> (\<lambda>n. the (sampled_roll 100 0 0 n sensor_data_init)) \<longlonglongrightarrow> 100"
    using i oi by blast
  show ?thesis using ltc oc c45 clim' lti oi i30 iz by (intro conjI) blast+
qed

section \<open>The bounded queue never overflows\<close>

lemma enqueue_room:
  "length q < 3 \<Longrightarrow> enqueue_drop_oldest q a = Inr (q @ [a])"
  by (simp add: enqueue_drop_oldest_def queue_full_def put_nowait_def data_queue_maxsize_def)

lemma enqueue_full:
  assumes "length q = 3"
  shows "enqueue_drop_oldest q a = Inr (tl q @ [a])"
proof -
  from assms obtain x rest where q: "q = x # rest" and r: "length rest = 2"
    by (cases q) auto
  show ?thesis
    by (simp add: q r enqueue_drop_oldest_def queue_full_def put_nowait_def get_nowait_def
        data_queue_maxsize_def)
qed

lemma enqueue_bounded:
  assumes "length q \<le> 3"
  shows "\<exists>q'. enqueue_drop_oldest q a = Inr q' \<and> length q' \<le> 3"
proof (cases "length q = 3")
  case True
  then show ?thesis by (simp add: enqueue_full)
next
  case False
  with assms have "length q < 3" by simp
  then show ?thesis by (simp add: enqueue_room)
qed

lemma callback_queue_bounded:
  assumes "length (data_queue m) \<le> 3"
  shows "\<exists>m'. callback_queue m data = Inr m' \<and> length (data_queue m') \<le> 3"
proof (cases "decode_witmotion data")
  case None
  then show ?thesis using assms by (simp add: callback_queue_def)
next
  case (Some a)
  from enqueue_bounded [OF assms, of a] obtain q'
    where "enqueue_drop_oldest (data_queue m) a = Inr q'" and "length q' \<le> 3" by blast
  then show ?thesis using Some by (simp add: callback_queue_def)
qed

lemma update_view_queue_bounded:
  "length (data_queue m) \<le> 3 \<Longrightarrow> length (data_queue (snd (update_view_queue m))) \<le> 3"
  by (auto simp: update_view_queue_def get_nowait_def split: list.splits prod.splits)

lemma key_press_queue_bounded:
  "length (data_queue m) \<le> 3 \<Longrightarrow> length (data_queue (key_press_queue m k)) \<le> 3"
  by (auto simp: key_press_queue_def get_nowait_def set_offsets_def split: list.splits prod.splits)

lemma step_bounded:
  assumes "length (data_queue m) \<le> 3"
  shows "\<exists>m'. step m e = Inr m' \<and> length (data_queue m') \<le> 3"
proof (cases e)
  case (Notify data)
  then show ?thesis using callback_queue_bounded [OF assms] by simp
next
  case Tick
  then show ?thesis using update_view_queue_bounded [OF assms] by simp
next
  case (Key k)
  then show ?thesis using key_press_queue_bounded [OF assms] by simp
qed

lemma run_bounded:
  "length (data_queue m) \<le> 3 \<Longrightarrow>
     \<exists>m'. run m evs = Inr m' \<and> length (data_queue m') \<le> 3"
proof (induction evs arbitrary: m)
  case Nil
  then show ?case by simp
next
  case (Cons e evs)
  from step_bounded [OF Cons.prems, of e] obtain m1
    where s: "step m e = Inr m1" and b: "length (data_queue m1) \<le> 3" by blast
  from Cons.IH [OF b] show ?case by (simp add: s)
qed

text \<open>
  Claim C9.  With the notification callback, the timer tick and the key press taken as
  atomic steps, no sequence of events from the initial manager makes the callback raise
  (so neither \<open>put_nowait\<close> nor \<open>get_nowait\<close> ever fails inside it) and the queue
  never holds more than 3 readings.  On a full queue the callback drops the oldest reading
  and appends the new one; otherwise it just appends.
\<close>

theorem queue_drops_oldest:
  "(\<exists>m'. run imu_manager_init evs = Inr m' \<and> length (data_queue m') \<le> data_queue_maxsize)
   \<and> (length (data_queue m) = data_queue_maxsize \<and> decode_witmotion data = Some a \<longrightarrow>
        callback_queue m data = Inr (m\<lparr>data_queue := tl (data_queue m) @ [a]\<rparr>))
   \<and> (length (data_queue m) < data_queue_maxsize \<and> decode_witmotion data = Some a \<longrightarrow>
        callback_queue m data = Inr (m\<lparr>data_queue := data_queue m @ [a]\<rparr>))"
proof -
  have "length (data_queue imu_manager_init) \<le> 3" by (simp add: imu_manager_init_def)
  from run_bounded [OF this, of evs]
  have a: "\<exists>m'. run imu_manager_init evs = Inr m' \<and> length (data_queue m') \<le> data_queue_maxsize"
    by (simp add: data_queue_maxsize_def)
  have b: "callback_queue m data = Inr (m\<lparr>data_queue := tl (data_queue m) @ [a]\<rparr>)"
    if "length (data_queue m) = data_queue_maxsize" "decode_witmotion data = Some a"
    using that by (simp add: callback_queue_def enqueue_full data_queue_maxsize_def)
  have c: "callback_queue m data = Inr (m\<lparr>data_queue := data_queue m @ [a]\<rparr>)"
    if "length (data_queue m) < data_queue_maxsize" "decode_witmotion data = Some a"
    using that by (simp add: callback_queue_def enqueue_room data_queue_maxsize_def)
  show ?thesis using a b c by blast
qed


text \<open>A full queue and the empty queue, each receiving the known vector.\<close>

theorem queue_drops_oldest_witness:
  "length (data_queue \<lparr>data_queue = [(1, 1, 1), (2, 2, 2), (3, 3, 3)], offsets = (0, 0, 0)\<rparr>)
     = data_queue_maxsize
   \<and> decode_witmotion [0x55, 0x61, 0x00, 0x40, 0x00, 0x00, 0x00, 0xC0] = Some (90, 0, - 90)
   \<and> callback_queue \<lparr>data_queue = [(1, 1, 1), (2, 2, 2), (3, 3, 3)], offsets = (0, 0, 0)\<rparr>
        [0x55, 0x61, 0x00, 0x40, 0x00, 0x00, 0x00, 0xC0]
      = Inr \<lparr>data_queue = [(2, 2, 2), (3, 3, 3), (90, 0, - 90)], offsets = (0, 0, 0)\<rparr>
   \<and> length (data_queue imu_manager_init) < data_queue_maxsize
   \<and> callback_queue imu_manager_init [0x55, 0x61, 0x00, 0x40, 0x00, 0x00, 0x00, 0xC0]
      = Inr \<lparr>data_queue = [(90, 0, - 90)], offsets = (0, 0, 0)\<rparr>"
proof -
  let ?m = "\<lparr>data_queue = [(1, 1, 1), (2, 2, 2), (3, 3, 3)], offsets = (0, 0, 0)\<rparr> :: imu_manager"
  let ?d = "[0x55, 0x61, 0x00, 0x40, 0x00, 0x00, 0x00, 0xC0] :: byte list"
  let ?a = "(90, 0, - 90) :: angles"
  have full: "length (data_queue ?m) = data_queue_maxsize"
    by (simp add: data_queue_maxsize_def)
  have room: "length (data_queue imu_manager_init) < data_queue_maxsize"
    by (simp add: data_queue_maxsize_def imu_manager_init_def)
  note dec = decode_known_vector
  have f: "length (data_queue ?m) = data_queue_maxsize \<and> decode_witmotion ?d = Some ?a \<longrightarrow>
      callback_queue ?m ?d = Inr (?m\<lparr>data_queue := tl (data_queue ?m) @ [?a]\<rparr>)"
    using queue_drops_oldest [of "[]" ?m ?d ?a] by (rule conjunct2 [THEN conjunct1])
  have r: "length (data_queue imu_manager_init) < data_queue_maxsize
        \<and> decode_witmotion ?d = Some ?a \<longrightarrow>
      callback_queue imu_manager_init ?d =
        Inr (imu_manager_init\<lparr>data_queue := data_queue imu_manager_init @ [?a]\<rparr>)"
    using queue_drops_oldest [of "[]" imu_manager_init ?d ?a]
    by (rule conjunct2 [THEN conjunct2])
  have f': "callback_queue ?m ?d = Inr (?m\<lparr>data_queue := tl (data_queue ?m) @ [?a]\<rparr>)"
    by (intro mp [OF f] conjI full dec)
  have r': "callback_queue imu_manager_init ?d =
        Inr (imu_manager_init\<lparr>data_queue := data_queue imu_manager_init @ [?a]\<rparr>)"
    by (intro mp [OF r] conjI room dec)
  have f'': "callback_queue ?m ?d =
      Inr \<lparr>data_queue = [(2, 2, 2), (3, 3, 3), (90, 0, - 90)], offsets = (0, 0, 0)\<rparr>"
    unfolding f' by simp
  have r'': "callback_queue imu_manager_init ?d =
      Inr \<lparr>data_queue = [(90, 0, - 90)], offsets = (0, 0, 0)\<rparr>"
    unfolding r' by (simp add: imu_manager_init_def)
  show ?thesis by (intro conjI full room dec f'' r'')
qed

section \<open>The moving average over a zero-filled window\<close>

lemma deque_append_full:
  "length d = n \<Longrightarrow> 0 < n \<Longrightarrow> deque_append n d x = tl d @ [x]"
  by (cases d) (simp_all add: deque_append_def Let_def)

lemma drop_shift:
  "d \<noteq> [] \<Longrightarrow> drop n ((tl d @ [v]) @ vs) = drop (Suc n) (d @ v # vs)"
  by (cases d) simp_all

lemma add_raw_angles_inv:
  assumes "ma_inv s"
  shows "\<exists>s'. add_raw_angles s r p y = Inr s' \<and> ma_inv s'
     \<and> roll_buffer s' = tl (roll_buffer s) @ [r]
     \<and> pitch_buffer s' = tl (pitch_buffer s) @ [p]
     \<and> yaw_buffer s' = tl (yaw_buffer s) @ [y]"
proof -
  from assms have w: "smoothing_window s = 5"
    and l: "length (roll_buffer s) = 5" "length (pitch_buffer s) = 5" "length (yaw_buffer s) = 5"
    by (simp_all add: ma_inv_def)
  have a: "deque_append 5 (roll_buffer s) r = tl (roll_buffer s) @ [r]"
    "deque_append 5 (pitch_buffer s) p = tl (pitch_buffer s) @ [p]"
    "deque_append 5 (yaw_buffer s) y = tl (yaw_buffer s) @ [y]"
    using l by (simp_all add: deque_append_full)
  show ?thesis
    by (simp add: add_raw_angles_def Let_def w a l buffer_mean_def ma_inv_def)
qed

lemma add_all_inv:
  "ma_inv s \<Longrightarrow>
     \<exists>s'. add_all s xs = Inr s' \<and> ma_inv s'
       \<and> roll_buffer s' = drop (length xs) (roll_buffer s @ map fst xs)
       \<and> pitch_buffer s' = drop (length xs) (pitch_buffer s @ map (fst \<circ> snd) xs)
       \<and> yaw_buffer s' = drop (length xs) (yaw_buffer s @ map (snd \<circ> snd) xs)"
proof (induction xs arbitrary: s)
  case Nil
  then show ?case by simp
next
  case (Cons a xs)
  obtain r p y where a: "a = (r, p, y)" by (cases a) auto
  from add_raw_angles_inv [OF Cons.prems, of r p y] obtain s1 where
    s1: "add_raw_angles s r p y = Inr s1" and i1: "ma_inv s1"
    and b1: "roll_buffer s1 = tl (roll_buffer s) @ [r]"
      "pitch_buffer s1 = tl (pitch_buffer s) @ [p]"
      "yaw_buffer s1 = tl (yaw_buffer s) @ [y]"
    by blast
  from Cons.IH [OF i1] obtain s' where
    s': "add_all s1 xs = Inr s'" and i': "ma_inv s'"
    and b': "roll_buffer s' = drop (length xs) (roll_buffer s1 @ map fst xs)"
      "pitch_buffer s' = drop (length xs) (pitch_buffer s1 @ map (fst \<circ> snd) xs)"
      "yaw_buffer s' = drop (length xs) (yaw_buffer s1 @ map (snd \<circ> snd) xs)"
    by blast
  from Cons.prems have l: "roll_buffer s \<noteq> []" "pitch_buffer s \<noteq> []" "yaw_buffer s \<noteq> []"
    by (auto simp: ma_inv_def)
  have "roll_buffer s' = drop (length (a # xs)) (roll_buffer s @ map fst (a # xs))"
    unfolding b'(1) b1(1) using drop_shift [OF l(1)] by (simp add: a)
  moreover have "pitch_buffer s' =
      drop (length (a # xs)) (pitch_buffer s @ map (fst \<circ> snd) (a # xs))"
    unfolding b'(2) b1(2) using drop_shift [OF l(2)] by (simp add: a)
  moreover have "yaw_buffer s' =
      drop (length (a # xs)) (yaw_buffer s @ map (snd \<circ> snd) (a # xs))"
    unfolding b'(3) b1(3) using drop_shift [OF l(3)] by (simp add: a)
  moreover have "add_all s (a # xs) = Inr s'" by (simp add: a s1 s')
  ultimately show ?case using i' by blast
qed

lemma ma_inv_init: "ma_inv shared_data_ma"
  by (simp add: ma_inv_def shared_data_ma_def ma_sensor_data_init_def sum_list_replicate)

text \<open>
  Claim C10.  The three ring buffers start as five zeros.  The first reading \<open>(r, p, y)\<close>
  on the fresh state gives the smoothed values \<open>(r/5, p/5, y/5)\<close>.  After any sequence of
  readings each buffer still holds exactly 5 entries, namely the last 5 of the zeros
  followed by the readings, and the smoothed value is their sum divided by 5; once 5
  readings have arrived the buffer holds the last 5 readings.
\<close>

theorem moving_average_prefilled:
  "roll_buffer shared_data_ma = [0, 0, 0, 0, 0]
   \<and> pitch_buffer shared_data_ma = [0, 0, 0, 0, 0]
   \<and> yaw_buffer shared_data_ma = [0, 0, 0, 0, 0]
   \<and> (\<exists>s'. add_raw_angles shared_data_ma r p y = Inr s'
         \<and> ma_roll s' = r / 5 \<and> ma_pitch s' = p / 5 \<and> ma_yaw s' = y / 5)
   \<and> (\<exists>s'. add_all shared_data_ma xs = Inr s'
         \<and> length (roll_buffer s') = 5 \<and> length (pitch_buffer s') = 5
         \<and> length (yaw_buffer s') = 5
         \<and> roll_buffer s' = drop (length xs) (replicate 5 0 @ map fst xs)
         \<and> pitch_buffer s' = drop (length xs) (replicate 5 0 @ map (fst \<circ> snd) xs)
         \<and> yaw_buffer s' = drop (length xs) (replicate 5 0 @ map (snd \<circ> snd) xs)
         \<and> ma_roll s' = sum_list (roll_buffer s') / 5
         \<and> ma_pitch s' = sum_list (pitch_buffer s') / 5
         \<and> ma_yaw s' = sum_list (yaw_buffer s') / 5
         \<and> (5 \<le> length xs \<longrightarrow>
               roll_buffer s' = drop (length xs - 5) (map fst xs)
             \<and> pitch_buffer s' = drop (length xs - 5) (map (fst \<circ> snd) xs)
             \<and> yaw_buffer s' = drop (length xs - 5) (map (snd \<circ> snd) xs)))"
proof -
  have init: "roll_buffer shared_data_ma = replicate 5 0"
    "pitch_buffer shared_data_ma = replicate 5 0" "yaw_buffer shared_data_ma = replicate 5 0"
    by (simp_all add: shared_data_ma_def ma_sensor_data_init_def)
  have five: "replicate 5 (0::real) = [0, 0, 0, 0, 0]"
    by (simp add: numeral_eq_Suc)
  from add_raw_angles_inv [OF ma_inv_init, of r p y] obtain s1 where
    s1: "add_raw_angles shared_data_ma r p y = Inr s1" and i1: "ma_inv s1"
    and b1: "roll_buffer s1 = tl (roll_buffer shared_data_ma) @ [r]"
      "pitch_buffer s1 = tl (pitch_buffer shared_data_ma) @ [p]"
      "yaw_buffer s1 = tl (yaw_buffer shared_data_ma) @ [y]"
    by blast
  have first: "ma_roll s1 = r / 5" "ma_pitch s1 = p / 5" "ma_yaw s1 = y / 5"
    using i1 by (simp_all add: ma_inv_def b1 init five)
  from add_all_inv [OF ma_inv_init, of xs] obtain s' where
    s': "add_all shared_data_ma xs = Inr s'" and i': "ma_inv s'"
    and b': "roll_buffer s' = drop (length xs) (replicate 5 0 @ map fst xs)"
      "pitch_buffer s' = drop (length xs) (replicate 5 0 @ map (fst \<circ> snd) xs)"
      "yaw_buffer s' = drop (length xs) (replicate 5 0 @ map (snd \<circ> snd) xs)"
    unfolding init by blast
  have last: "drop (length xs) (replicate 5 (0::real) @ map f xs) = drop (length xs - 5) (map f xs)"
    if "5 \<le> length xs" for f
    using that by simp
  have "(5 \<le> length xs \<longrightarrow>
               roll_buffer s' = drop (length xs - 5) (map fst xs)
             \<and> pitch_buffer s' = drop (length xs - 5) (map (fst \<circ> snd) xs)
             \<and> yaw_buffer s' = drop (length xs - 5) (map (snd \<circ> snd) xs))"
    using last b' by simp
  with s' i' b' have "\<exists>s'. add_all shared_data_ma xs = Inr s'
         \<and> length (roll_buffer s') = 5 \<and> length (pitch_buffer s') = 5
         \<and> length (yaw_buffer s') = 5
         \<and> roll_buffer s' = drop (length xs) (replicate 5 0 @ map fst xs)
         \<and> pitch_buffer s' = drop (length xs) (replicate 5 0 @ map (fst \<circ> snd) xs)
         \<and> yaw_buffer s' = drop (length xs) (replicate 5 0 @ map (snd \<circ> snd) xs)
         \<and> ma_roll s' = sum_list (roll_buffer s') / 5
         \<and> ma_pitch s' = sum_list (pitch_buffer s') / 5
         \<and> ma_yaw s' = sum_list (yaw_buffer s') / 5
         \<and> (5 \<le> length xs \<longrightarrow>
               roll_buffer s' = drop (length xs - 5) (map fst xs)
             \<and> pitch_buffer s' = drop (length xs - 5) (map (fst \<circ> snd) xs)
             \<and> yaw_buffer s' = drop (length xs - 5) (map (snd \<circ> snd) xs))"
    unfolding ma_inv_def by blast
  moreover from s1 first have "\<exists>s'. add_raw_angles shared_data_ma r p y = Inr s'
         \<and> ma_roll s' = r / 5 \<and> ma_pitch s' = p / 5 \<and> ma_yaw s' = y / 5"
    by blast
  ultimately show ?thesis using init five by simp
qed


text \<open>Six readings: the window holds the last five.\<close>

theorem moving_average_prefilled_witness:
  "5 \<le> length [(1, 10, 100), (2, 20, 200), (3, 30, 300), (4, 40, 400), (5, 50, 500),
                 (6, 60, 600) :: angles]
   \<and> (\<exists>s'. add_all shared_data_ma
               [(1, 10, 100), (2, 20, 200), (3, 30, 300), (4, 40, 400), (5, 50, 500),
                (6, 60, 600)] = Inr s'
         \<and> roll_buffer s' = [2, 3, 4, 5, 6] \<and> ma_roll s' = 4
         \<and> pitch_buffer s' = [20, 30, 40, 50, 60] \<and> ma_pitch s' = 40
         \<and> yaw_buffer s' = [200, 300, 400, 500, 600] \<and> ma_yaw s' = 400)"
proof -
  let ?xs = "[(1, 10, 100), (2, 20, 200), (3, 30, 300), (4, 40, 400), (5, 50, 500),
              (6, 60, 600)] :: angles list"
  have len: "5 \<le> length ?xs" by simp
  have n: "length ?xs - 5 = Suc 0" by simp
  from moving_average_prefilled [of 0 0 0 ?xs] obtain s' where
    s': "add_all shared_data_ma ?xs = Inr s'"
    and m: "ma_roll s' = sum_list (roll_buffer s') / 5"
      "ma_pitch s' = sum_list (pitch_buffer s') / 5"
      "ma_yaw s' = sum_list (yaw_buffer s') / 5"
    and b: "5 \<le> length ?xs \<longrightarrow>
               roll_buffer s' = drop (length ?xs - 5) (map fst ?xs)
             \<and> pitch_buffer s' = drop (length ?xs - 5) (map (fst \<circ> snd) ?xs)
             \<and> yaw_buffer s' = drop (length ?xs - 5) (map (snd \<circ> snd) ?xs)"
    by blast
  from mp [OF b len] have
    r: "roll_buffer s' = [2, 3, 4, 5, 6]" and p: "pitch_buffer s' = [20, 30, 40, 50, 60]"
    and y: "yaw_buffer s' = [200, 300, 400, 500, 600]"
    unfolding n by simp_all
  have "ma_roll s' = 4" "ma_pitch s' = 40" "ma_yaw s' = 400"
    unfolding m r p y by simp_all
  with s' r p y len show ?thesis by blast
qed

end
